theory Spec2Isabelle
  imports Main "HOL-Library.Word"
begin

unbundle bit_operations_syntax

section \<open>The machine: words, addresses and the heap region\<close>

text \<open>
  The allocator of \<^verbatim>\<open>mm.c\<close> is modelled on an LP64 platform: \<^verbatim>\<open>sizeof(void *)\<close> is 8,
  so \<^verbatim>\<open>uintptr_t\<close>, \<^verbatim>\<open>size_t\<close> and every pointer are 64-bit words whose arithmetic wraps
  around, and \<^verbatim>\<open>unsigned int\<close> is a 32-bit word. The null pointer is the word 0 and
  \<^verbatim>\<open>(void *)-1\<close> is the word of all ones.

  The allocator only ever reads and writes whole words, through \<^verbatim>\<open>GET\<close>, \<^verbatim>\<open>PUT\<close> and the two
  pointer fields of \<^verbatim>\<open>struct seg_list\<close>, and memory is a map from the address of a word to
  the word stored there. The map does not represent the overlap of two words whose
  addresses are less than 8 apart, so it is exact for the runs in which every accessed
  address is a multiple of 8.

  The heap is the region that \<^verbatim>\<open>mem_sbrk\<close> has handed out so far, from \<open>mem_start_brk\<close> up
  to \<open>mem_brk\<close>. An access through the null pointer or outside the heap is recorded as a
  fault value instead of a result, and the first fault ends the call.
\<close>

type_synonym addr = "64 word"

datatype fault = OutOfHeap addr | Overlap addr addr

record mstate =
  mem :: "addr \<Rightarrow> 64 word"
  mem_start_brk :: addr
  mem_brk :: addr
  mem_max_addr :: addr
  heap_listp :: addr
  free_listp :: addr
  MAX_SIZE :: "32 word"

definition WSIZE :: "64 word" where
  "WSIZE = 8"

definition DSIZE :: "64 word" where
  "DSIZE = 2 * WSIZE"

definition ALIGN_SIZE :: "64 word" where
  "ALIGN_SIZE = 8"

definition CHUNKSIZE :: "64 word" where
  "CHUNKSIZE = push_bit 12 1"

definition NULL :: addr where
  "NULL = 0"

text \<open>Sequencing of steps that may fault: the first fault ends the computation.\<close>

definition thenF :: "fault + 'a \<Rightarrow> ('a \<Rightarrow> fault + 'b) \<Rightarrow> fault + 'b" where
  "thenF m f = (case m of Inl e \<Rightarrow> Inl e | Inr x \<Rightarrow> f x)"

text \<open>
  The same for code that contains a loop which may run forever: \<open>None\<close> is a run that
  does not return, \<open>Some (Inl e)\<close> a fault, \<open>Some (Inr x)\<close> a normal return.
\<close>

definition thenR :: "(fault + 'a) option \<Rightarrow> ('a \<Rightarrow> (fault + 'b) option) \<Rightarrow> (fault + 'b) option" where
  "thenR m f = (case m of None \<Rightarrow> None | Some (Inl e) \<Rightarrow> Some (Inl e) | Some (Inr x) \<Rightarrow> f x)"

definition in_heap :: "mstate \<Rightarrow> addr \<Rightarrow> bool" where
  "in_heap s p \<longleftrightarrow>
     p \<noteq> NULL \<and> uint (mem_start_brk s) \<le> uint p \<and> uint p + 8 \<le> uint (mem_brk s)"

definition check_access :: "mstate \<Rightarrow> addr \<Rightarrow> fault option" where
  "check_access s p =
     (if \<not> in_heap s p then Some (OutOfHeap p) else None)"

definition GET :: "mstate \<Rightarrow> addr \<Rightarrow> fault + 64 word" where
  "GET s p = (case check_access s p of Some e \<Rightarrow> Inl e | None \<Rightarrow> Inr (mem s p))"

definition PUT :: "mstate \<Rightarrow> addr \<Rightarrow> 64 word \<Rightarrow> fault + mstate" where
  "PUT s p val =
     (case check_access s p of Some e \<Rightarrow> Inl e
      | None \<Rightarrow> Inr (s\<lparr>mem := (mem s)(p := val)\<rparr>))"

definition PACK :: "64 word \<Rightarrow> 64 word \<Rightarrow> 64 word" where
  "PACK sz alloc = sz OR alloc"

definition GET_SIZE :: "mstate \<Rightarrow> addr \<Rightarrow> fault + 64 word" where
  "GET_SIZE s p = thenF (GET s p) (\<lambda>w. Inr (w AND NOT (ALIGN_SIZE - 1)))"

definition GET_ALLOC :: "mstate \<Rightarrow> addr \<Rightarrow> fault + 64 word" where
  "GET_ALLOC s p = thenF (GET s p) (\<lambda>w. Inr (w AND 1))"

definition HDRP :: "addr \<Rightarrow> addr" where
  "HDRP bp = bp - WSIZE"

definition FTRP :: "mstate \<Rightarrow> addr \<Rightarrow> fault + addr" where
  "FTRP s bp = thenF (GET_SIZE s (HDRP bp)) (\<lambda>sz. Inr (bp + sz - DSIZE))"

definition NEXT_BLKP :: "mstate \<Rightarrow> addr \<Rightarrow> fault + addr" where
  "NEXT_BLKP s bp = thenF (GET_SIZE s (bp - WSIZE)) (\<lambda>sz. Inr (bp + sz))"

definition PREV_BLKP :: "mstate \<Rightarrow> addr \<Rightarrow> fault + addr" where
  "PREV_BLKP s bp = thenF (GET_SIZE s (bp - DSIZE)) (\<lambda>sz. Inr (bp - sz))"

text \<open>
  Modelled from the spec: the region provider \<^verbatim>\<open>mem_sbrk\<close> of \<^verbatim>\<open>memlib\<close> is not among the
  sources. It extends the heap by exactly the requested byte count and returns the
  previous end of the heap, or returns the failure sentinel \<^verbatim>\<open>(void *)-1\<close> and changes
  nothing when the request does not fit below \<open>mem_max_addr\<close>. It never touches memory
  contents, so a granted region holds whatever \<open>mem\<close> held there before.
\<close>

definition mem_sbrk :: "mstate \<Rightarrow> 64 word \<Rightarrow> mstate \<times> addr" where
  "mem_sbrk s incr =
     (if uint (mem_brk s) + uint incr \<le> uint (mem_max_addr s)
      then (s\<lparr>mem_brk := mem_brk s + incr\<rparr>, mem_brk s)
      else (s, - 1))"

section \<open>The segregated free lists\<close>

text \<open>
  \<^verbatim>\<open>struct seg_list\<close> has the field \<^verbatim>\<open>next\<close> at offset 0 and \<^verbatim>\<open>prev\<close> at offset 8.
  \<^verbatim>\<open>&free_listp[i]\<close> is \<open>free_listp + 16 * i\<close>.
\<close>

definition next_field :: "addr \<Rightarrow> addr" where
  "next_field node = node"

definition prev_field :: "addr \<Rightarrow> addr" where
  "prev_field node = node + 8"

definition list_head :: "mstate \<Rightarrow> 32 word \<Rightarrow> addr" where
  "list_head s i = free_listp s + 16 * ucast i"

definition init_head :: "mstate \<Rightarrow> addr \<Rightarrow> fault + mstate" where
  "init_head s dummy =
     thenF (PUT s (next_field dummy) dummy) (\<lambda>s1.
     PUT s1 (prev_field dummy) dummy)"

definition remove_circular :: "mstate \<Rightarrow> addr \<Rightarrow> fault + mstate" where
  "remove_circular s block =
     thenF (GET s (prev_field block)) (\<lambda>p1.
     thenF (GET s (next_field block)) (\<lambda>n1.
     thenF (PUT s (next_field p1) n1) (\<lambda>s1.
     thenF (GET s1 (next_field block)) (\<lambda>n2.
     thenF (GET s1 (prev_field block)) (\<lambda>p2.
     thenF (PUT s1 (prev_field n2) p2) (\<lambda>s2.
     thenF (PUT s2 (next_field block) NULL) (\<lambda>s3.
     PUT s3 (prev_field block) NULL)))))))"

definition insert_circular :: "mstate \<Rightarrow> addr \<Rightarrow> addr \<Rightarrow> fault + mstate" where
  "insert_circular s block dummy =
     thenF (GET s (prev_field dummy)) (\<lambda>p1.
     thenF (PUT s (prev_field block) p1) (\<lambda>s1.
     thenF (PUT s1 (next_field block) dummy) (\<lambda>s2.
     thenF (GET s2 (prev_field dummy)) (\<lambda>p2.
     thenF (PUT s2 (next_field p2) block) (\<lambda>s3.
     PUT s3 (prev_field dummy) block)))))"

definition find_list_head :: "32 word \<Rightarrow> 32 word" where
  "find_list_head sz =
     (if sz < 2 then 0
      else if sz < 4 then 1
      else if sz < 8 then 2
      else if sz < 16 then 3
      else if sz < 32 then 4
      else if sz < 64 then 5
      else if sz < 128 then 6
      else if sz < 256 then 7
      else if sz < 512 then 8
      else if sz < 1024 then 9
      else if sz < 2048 then 10
      else if sz < 4096 then 11
      else if sz < 8192 then 12
      else if sz < 16384 then 13
      else 14)"

section \<open>Coalescing, heap growth and placement\<close>

text \<open>
  \<^verbatim>\<open>coalesce\<close> passes the \<^verbatim>\<open>size_t\<close> size to \<^verbatim>\<open>find_list_head\<close>, whose parameter is an
  \<^verbatim>\<open>unsigned int\<close>: the conversion keeps the low 32 bits (\<open>ucast\<close>).
\<close>

definition coalesce :: "mstate \<Rightarrow> addr \<Rightarrow> fault + mstate \<times> addr" where
  "coalesce s bp =
     thenF (GET_SIZE s (HDRP bp)) (\<lambda>sz.
     thenF (PREV_BLKP s bp) (\<lambda>pb.
     thenF (FTRP s pb) (\<lambda>pf.
     thenF (GET_ALLOC s pf) (\<lambda>pa.
     thenF (NEXT_BLKP s bp) (\<lambda>nb.
     thenF (GET_ALLOC s (HDRP nb)) (\<lambda>na.
     let prev_alloc = (pa \<noteq> 0); next_alloc = (na \<noteq> 0) in
     thenF
      (if prev_alloc \<and> next_alloc then Inr (s, sz, bp)
       else if prev_alloc \<and> \<not> next_alloc then
         thenF (NEXT_BLKP s bp) (\<lambda>to_delete2.
         thenF (remove_circular s to_delete2) (\<lambda>s1.
         thenF (NEXT_BLKP s1 bp) (\<lambda>nb1.
         thenF (GET_SIZE s1 (HDRP nb1)) (\<lambda>nsz.
         let size2 = sz + nsz in
         thenF (PUT s1 (HDRP bp) (PACK size2 0)) (\<lambda>s2.
         thenF (FTRP s2 bp) (\<lambda>f.
         thenF (PUT s2 f (PACK size2 0)) (\<lambda>s3.
         Inr (s3, size2, bp))))))))
       else if \<not> prev_alloc \<and> next_alloc then
         thenF (PREV_BLKP s bp) (\<lambda>to_delete3.
         thenF (remove_circular s to_delete3) (\<lambda>s1.
         thenF (PREV_BLKP s1 bp) (\<lambda>pb1.
         thenF (GET_SIZE s1 (HDRP pb1)) (\<lambda>psz.
         let size2 = sz + psz in
         thenF (FTRP s1 bp) (\<lambda>f.
         thenF (PUT s1 f (PACK size2 0)) (\<lambda>s2.
         thenF (PREV_BLKP s2 bp) (\<lambda>pb2.
         thenF (PUT s2 (HDRP pb2) (PACK size2 0)) (\<lambda>s3.
         thenF (PREV_BLKP s3 bp) (\<lambda>bp'.
         Inr (s3, size2, bp'))))))))))
       else
         thenF (PREV_BLKP s bp) (\<lambda>prev_delete.
         thenF (remove_circular s prev_delete) (\<lambda>s1.
         thenF (NEXT_BLKP s1 bp) (\<lambda>next_delete.
         thenF (remove_circular s1 next_delete) (\<lambda>s2.
         thenF (PREV_BLKP s2 bp) (\<lambda>pb1.
         thenF (GET_SIZE s2 (HDRP pb1)) (\<lambda>psz.
         thenF (NEXT_BLKP s2 bp) (\<lambda>nb1.
         thenF (FTRP s2 nb1) (\<lambda>nf.
         thenF (GET_SIZE s2 nf) (\<lambda>nsz.
         let size2 = sz + (psz + nsz) in
         thenF (PREV_BLKP s2 bp) (\<lambda>pb2.
         thenF (PUT s2 (HDRP pb2) (PACK size2 0)) (\<lambda>s3.
         thenF (NEXT_BLKP s3 bp) (\<lambda>nb2.
         thenF (FTRP s3 nb2) (\<lambda>nf2.
         thenF (PUT s3 nf2 (PACK size2 0)) (\<lambda>s4.
         thenF (PREV_BLKP s4 bp) (\<lambda>bp'.
         Inr (s4, size2, bp')))))))))))))))))
      (\<lambda>(s5, size5, new_free).
         thenF (insert_circular s5 new_free (list_head s5 (find_list_head (ucast size5)))) (\<lambda>s6.
         Inr (s6, new_free)))))))))"

definition extend_heap :: "mstate \<Rightarrow> 64 word \<Rightarrow> fault + mstate \<times> addr" where
  "extend_heap s words =
     (let sz = (if words mod 2 \<noteq> 0 then (words + 1) * WSIZE else words * WSIZE);
          (s1, bp) = mem_sbrk s sz
      in if bp = - 1 then Inr (s1, NULL)
         else
           thenF (PUT s1 (HDRP bp) (PACK sz 0)) (\<lambda>s2.
           thenF (FTRP s2 bp) (\<lambda>f.
           thenF (PUT s2 f (PACK sz 0)) (\<lambda>s3.
           thenF (NEXT_BLKP s3 bp) (\<lambda>nb.
           thenF (PUT s3 (HDRP nb) (PACK 0 1)) (\<lambda>s4.
           coalesce s4 bp))))))"

definition place :: "mstate \<Rightarrow> addr \<Rightarrow> 64 word \<Rightarrow> fault + mstate" where
  "place s bp asize =
     thenF (GET_SIZE s (HDRP bp)) (\<lambda>csize.
     thenF (remove_circular s bp) (\<lambda>s1.
     if csize - asize \<ge> 2 * DSIZE then
       thenF (PUT s1 (HDRP bp) (PACK asize 1)) (\<lambda>s2.
       thenF (FTRP s2 bp) (\<lambda>f.
       thenF (PUT s2 f (PACK asize 1)) (\<lambda>s3.
       thenF (NEXT_BLKP s3 bp) (\<lambda>bp2.
       thenF (PUT s3 (HDRP bp2) (PACK (csize - asize) 0)) (\<lambda>s4.
       thenF (FTRP s4 bp2) (\<lambda>f2.
       thenF (PUT s4 f2 (PACK (csize - asize) 0)) (\<lambda>s5.
       let head_ptr = find_list_head (ucast (csize - asize)) in
       insert_circular s5 bp2 (list_head s5 head_ptr))))))))
     else
       thenF (PUT s1 (HDRP bp) (PACK csize 1)) (\<lambda>s2.
       thenF (FTRP s2 bp) (\<lambda>f.
       PUT s2 f (PACK csize 1)))))"

section \<open>Searching for a fit\<close>

text \<open>
  The inner \<^verbatim>\<open>while\<close> loop of \<^verbatim>\<open>find_fit\<close> follows \<^verbatim>\<open>next\<close> pointers until it is back at
  the list head. Nothing in the code bounds it, so it is a partial function: \<open>None\<close> is
  a scan that never returns. \<open>Some (Inr (Some bp))\<close> is the \<^verbatim>\<open>return\<close> inside the loop and
  \<open>Some (Inr None)\<close> is leaving the loop at the head.
\<close>

partial_function (option) scan_list ::
  "mstate \<Rightarrow> addr \<Rightarrow> 64 word \<Rightarrow> addr \<Rightarrow> (fault + addr option) option" where
  "scan_list s dummy asize bp =
     (if bp = dummy then Some (Inr None)
      else case GET_SIZE s (HDRP bp) of
        Inl e \<Rightarrow> Some (Inl e)
      | Inr bsize \<Rightarrow>
          if asize \<le> bsize then Some (Inr (Some bp))
          else (case GET s (next_field bp) of
                  Inl e \<Rightarrow> Some (Inl e)
                | Inr nx \<Rightarrow> scan_list s dummy asize nx))"

declare scan_list.simps [code]

function find_fit_from :: "mstate \<Rightarrow> 64 word \<Rightarrow> 32 word \<Rightarrow> (fault + addr) option" where
  "find_fit_from s asize idx =
     (if idx < MAX_SIZE s then
        (case GET s (next_field (list_head s idx)) of
           Inl e \<Rightarrow> Some (Inl e)
         | Inr bp \<Rightarrow>
             (case scan_list s (list_head s idx) asize bp of
                None \<Rightarrow> None
              | Some (Inl e) \<Rightarrow> Some (Inl e)
              | Some (Inr (Some hit)) \<Rightarrow> Some (Inr hit)
              | Some (Inr None) \<Rightarrow> find_fit_from s asize (idx + 1)))
      else Some (Inr NULL))"
  by pat_completeness auto
termination
proof (relation "measure (\<lambda>(s, asize, idx). unat (MAX_SIZE s) - unat idx)")
  show "wf (measure (\<lambda>(s, asize, idx). unat (MAX_SIZE s) - unat idx))"
    by simp
next
  fix s :: mstate and asize :: "64 word" and idx :: "32 word"
  assume "idx < MAX_SIZE s"
  then have "unat (MAX_SIZE s) - unat (idx + 1) < unat (MAX_SIZE s) - unat idx"
    by unat_arith
  then show "((s, asize, idx + 1), (s, asize, idx))
      \<in> measure (\<lambda>(s, asize, idx). unat (MAX_SIZE s) - unat idx)"
    by simp
qed

definition find_fit :: "mstate \<Rightarrow> 64 word \<Rightarrow> (fault + addr) option" where
  "find_fit s asize =
     (let head = find_list_head (ucast asize);
          head = (if head + 1 \<noteq> MAX_SIZE s then head + 1 else head)
      in find_fit_from s asize head)"

section \<open>The allocator interface\<close>

text \<open>The loop of \<^verbatim>\<open>mm_init\<close> that makes every bucket an empty circular list.\<close>

lemma init_head_MAX_SIZE:
  "init_head s dummy = Inr s' \<Longrightarrow> MAX_SIZE s' = MAX_SIZE s"
  by (auto simp: init_head_def thenF_def PUT_def split: sum.splits option.splits)

function init_heads :: "mstate \<Rightarrow> 32 word \<Rightarrow> fault + mstate" where
  "init_heads s i =
     (if i < MAX_SIZE s then
        (case init_head s (list_head s i) of
           Inl e \<Rightarrow> Inl e
         | Inr s1 \<Rightarrow> init_heads s1 (i + 1))
      else Inr s)"
  by pat_completeness auto
termination
proof (relation "measure (\<lambda>(s, i). unat (MAX_SIZE s) - unat i)")
  show "wf (measure (\<lambda>(s, i). unat (MAX_SIZE s) - unat i))"
    by simp
next
  fix s s1 :: mstate and i :: "32 word"
  assume lt: "i < MAX_SIZE s" and step: "init_head s (list_head s i) = Inr s1"
  from lt have "unat (MAX_SIZE s) - unat (i + 1) < unat (MAX_SIZE s) - unat i"
    by unat_arith
  moreover from step have "MAX_SIZE s1 = MAX_SIZE s"
    by (rule init_head_MAX_SIZE)
  ultimately show "((s1, i + 1), (s, i)) \<in> measure (\<lambda>(s, i). unat (MAX_SIZE s) - unat i)"
    by simp
qed

declare init_heads.simps [simp del]
declare find_fit_from.simps [simp del]

definition mm_init :: "mstate \<Rightarrow> fault + mstate \<times> int" where
  "mm_init s =
     (let s0 = s\<lparr>MAX_SIZE := 15\<rparr>;
          seg_size = (16 :: 64 word);
          (s1, fl) = mem_sbrk s0 (ucast (MAX_SIZE s0) * seg_size);
          s1 = s1\<lparr>free_listp := fl\<rparr>
      in if fl = - 1 then Inr (s1, - 1)
         else
           let (s2, hl) = mem_sbrk s1 (3 * WSIZE);
               s2 = s2\<lparr>heap_listp := hl\<rparr>
           in if hl = - 1 then Inr (s2, - 1)
              else
                thenF (init_heads s2 0) (\<lambda>s3.
                thenF (PUT s3 (heap_listp s3) (PACK DSIZE 1)) (\<lambda>s4.
                thenF (PUT s4 (heap_listp s4 + 1 * WSIZE) (PACK DSIZE 1)) (\<lambda>s5.
                thenF (PUT s5 (heap_listp s5 + 2 * WSIZE) (PACK 0 1)) (\<lambda>s6.
                let s7 = s6\<lparr>heap_listp := heap_listp s6 + WSIZE\<rparr> in
                thenF (extend_heap s7 (CHUNKSIZE div WSIZE)) (\<lambda>(s8, bp).
                if bp = NULL then Inr (s8, - 1) else Inr (s8, 0)))))))"

definition adjust_size :: "64 word \<Rightarrow> 64 word" where
  "adjust_size sz =
     (if sz \<le> DSIZE then DSIZE * 2
      else ALIGN_SIZE * ((sz + DSIZE + (ALIGN_SIZE - 1)) div ALIGN_SIZE))"

definition mm_malloc :: "mstate \<Rightarrow> 64 word \<Rightarrow> (fault + mstate \<times> addr) option" where
  "mm_malloc s sz =
     (if sz = 0 then Some (Inr (s, NULL))
      else
        let asize = adjust_size sz in
        thenR (find_fit s asize) (\<lambda>bp.
        if bp \<noteq> NULL then
          Some (thenF (place s bp asize) (\<lambda>s1. Inr (s1, bp)))
        else
          let extendsize = (if asize > CHUNKSIZE then asize else CHUNKSIZE) in
          Some (thenF (extend_heap s (extendsize div WSIZE)) (\<lambda>(s1, bp).
                if bp = NULL then Inr (s1, NULL)
                else thenF (place s1 bp asize) (\<lambda>s2. Inr (s2, bp))))))"

definition mm_free :: "mstate \<Rightarrow> addr \<Rightarrow> fault + mstate" where
  "mm_free s bp =
     (if bp = NULL then Inr s
      else
        thenF (GET_SIZE s (HDRP bp)) (\<lambda>sz.
        thenF (PUT s (HDRP bp) (PACK sz 0)) (\<lambda>s1.
        thenF (FTRP s1 bp) (\<lambda>f.
        thenF (PUT s1 f (PACK sz 0)) (\<lambda>s2.
        thenF (coalesce s2 bp) (\<lambda>(s3, bp'). Inr s3))))))"

text \<open>
  \<^verbatim>\<open>memcpy(dst, src, n)\<close> copies \<open>n\<close> bytes. Its only call passes a block size, which
  \<^verbatim>\<open>GET_SIZE\<close> has made a multiple of 8, so the copy is of \<open>n div 8\<close> whole words, lowest
  address first. Copying between overlapping regions is undefined in C and is a fault
  here.
\<close>

fun copy_words :: "mstate \<Rightarrow> addr \<Rightarrow> addr \<Rightarrow> nat \<Rightarrow> fault + mstate" where
  "copy_words s dst src 0 = Inr s"
| "copy_words s dst src (Suc k) =
     thenF (GET s src) (\<lambda>w.
     thenF (PUT s dst w) (\<lambda>s1.
     copy_words s1 (dst + 8) (src + 8) k))"

definition memcpy :: "mstate \<Rightarrow> addr \<Rightarrow> addr \<Rightarrow> 64 word \<Rightarrow> fault + mstate" where
  "memcpy s dst src n =
     (if uint dst < uint src + uint n \<and> uint src < uint dst + uint n \<and> n \<noteq> 0
      then Inl (Overlap dst src)
      else copy_words s dst src (unat (n div 8)))"

definition mm_realloc :: "mstate \<Rightarrow> addr \<Rightarrow> 64 word \<Rightarrow> (fault + mstate \<times> addr) option" where
  "mm_realloc s ptr sz =
     (let newsize = adjust_size sz in
      thenR (Some (GET_SIZE s (HDRP ptr))) (\<lambda>oldsize.
      if sz = 0 then Some (thenF (mm_free s ptr) (\<lambda>s1. Inr (s1, NULL)))
      else if ptr = NULL then mm_malloc s sz
      else if newsize < oldsize then Some (Inr (s, ptr))
      else
        thenR (mm_malloc s (2 * sz)) (\<lambda>(s1, newptr).
        if newptr = NULL then Some (Inr (s1, NULL))
        else
          Some (thenF (memcpy s1 newptr ptr oldsize) (\<lambda>s2.
                thenF (mm_free s2 ptr) (\<lambda>s3.
                Inr (s3, newptr)))))))"

section \<open>The consistency checker\<close>

text \<open>What the checker prints, one constructor for each \<^verbatim>\<open>printf\<close> of the source.\<close>

datatype diag =
    HeapBanner addr
  | BadPrologue
  | NotAligned addr
  | HeaderFooterMismatch
  | InvalidPointer
  | BlockLine addr "64 word" bool "64 word" bool
  | EndOfHeap addr
  | BadEpilogue
  | ListedAllocated addr

definition checkblock :: "mstate \<Rightarrow> addr \<Rightarrow> fault + diag list" where
  "checkblock s bp =
     (let d1 = (if bp mod ALIGN_SIZE \<noteq> 0 then [NotAligned bp] else []) in
      thenF (GET s (HDRP bp)) (\<lambda>h.
      thenF (FTRP s bp) (\<lambda>fp.
      thenF (GET s fp) (\<lambda>f.
      Inr (d1 @ (if h \<noteq> f then [HeaderFooterMismatch] else []))))))"

lemma thenR_bind:
  "thenR m f = Option.bind m (\<lambda>r. case r of Inl e \<Rightarrow> Some (Inl e) | Inr x \<Rightarrow> f x)"
  by (simp add: thenR_def split: option.splits sum.splits)

lemma thenR_mono [partial_function_mono]:
  assumes "mono_option B" and "\<And>y. mono_option (\<lambda>f. C y f)"
  shows "mono_option (\<lambda>f. thenR (B f) (\<lambda>y. C y f))"
  unfolding thenR_bind
proof (rule bind_mono)
  show "mono_option B" by fact
next
  fix r
  show "mono_option (\<lambda>f. case r of Inl e \<Rightarrow> Some (Inl e) | Inr x \<Rightarrow> C x f)"
    using assms(2) by (cases r) (simp_all add: option.const_mono)
qed

text \<open>
  The inner loop of the free-list validation. \<open>bp\<close> is the cursor that the heap walk
  left behind and \<open>block\<close> is the list member; the test of the source is
  \<^verbatim>\<open>GET_ALLOC(bp)\<close>.
\<close>

partial_function (option) check_list ::
  "mstate \<Rightarrow> addr \<Rightarrow> addr \<Rightarrow> addr \<Rightarrow> (fault + diag list) option" where
  "check_list s dummy bp block =
     (if block = dummy then Some (Inr [])
      else
        thenR (Some (GET_ALLOC s bp)) (\<lambda>a.
        thenR (Some (GET s (next_field block))) (\<lambda>nx.
        thenR (check_list s dummy bp nx) (\<lambda>ds.
        Some (Inr ((if a \<noteq> 0 then [ListedAllocated block] else []) @ ds))))))"

declare check_list.simps [code]

function check_buckets :: "mstate \<Rightarrow> addr \<Rightarrow> 32 word \<Rightarrow> (fault + diag list) option" where
  "check_buckets s bp i =
     (if i < MAX_SIZE s then
        (case GET s (next_field (list_head s i)) of
           Inl e \<Rightarrow> Some (Inl e)
         | Inr first \<Rightarrow>
             (case check_list s (list_head s i) bp first of
                None \<Rightarrow> None
              | Some (Inl e) \<Rightarrow> Some (Inl e)
              | Some (Inr d) \<Rightarrow>
                  (case check_buckets s bp (i + 1) of
                     None \<Rightarrow> None
                   | Some (Inl e) \<Rightarrow> Some (Inl e)
                   | Some (Inr ds) \<Rightarrow> Some (Inr (d @ ds)))))
      else Some (Inr []))"
  by pat_completeness auto
termination
proof (relation "measure (\<lambda>(s, bp, i). unat (MAX_SIZE s) - unat i)")
  show "wf (measure (\<lambda>(s, bp, i). unat (MAX_SIZE s) - unat i))"
    by simp
next
  fix s :: mstate and bp :: addr and i :: "32 word"
  assume "i < MAX_SIZE s"
  then have "unat (MAX_SIZE s) - unat (i + 1) < unat (MAX_SIZE s) - unat i"
    by unat_arith
  then show "((s, bp, i + 1), (s, bp, i))
      \<in> measure (\<lambda>(s, bp, i). unat (MAX_SIZE s) - unat i)"
    by simp
qed

declare check_buckets.simps [simp del]

text \<open>
  \<^verbatim>\<open>checkheap\<close> and \<^verbatim>\<open>printblock\<close> call each other, and the heap walk of \<^verbatim>\<open>checkheap\<close> is
  an unbounded loop, so the three are one partial function over the call that is being
  made. Each call returns what it printed, in order, and the block pointer it ended
  with; for \<open>Walk\<close> that is the value of \<^verbatim>\<open>bp\<close> when the \<^verbatim>\<open>for\<close> loop is left.
\<close>

datatype call = CheckHeap bool | PrintBlock addr | Walk bool addr

partial_function (option) checker ::
  "mstate \<Rightarrow> call \<Rightarrow> (fault + diag list \<times> addr) option" where
  "checker s c =
     (case c of
        CheckHeap verbose \<Rightarrow>
          (let d0 = (if verbose then [HeapBanner (heap_listp s)] else []) in
           thenR (Some (GET_SIZE s (HDRP (heap_listp s)))) (\<lambda>psz.
           thenR (Some (if psz \<noteq> DSIZE then Inr 0 else GET_ALLOC s (HDRP (heap_listp s)))) (\<lambda>pal.
           let d1 = (if psz \<noteq> DSIZE \<or> pal = 0 then [BadPrologue] else []) in
           thenR (Some (checkblock s (heap_listp s))) (\<lambda>d2.
           thenR (checker s (Walk verbose (heap_listp s))) (\<lambda>(d3, bp).
           thenR (if verbose then checker s (PrintBlock bp) else Some (Inr ([], bp))) (\<lambda>(d4, _).
           thenR (Some (GET_SIZE s (HDRP bp))) (\<lambda>esz.
           thenR (Some (if esz \<noteq> 0 then Inr 0 else GET_ALLOC s (HDRP bp))) (\<lambda>eal.
           let d5 = (if esz \<noteq> 0 \<or> eal = 0 then [BadEpilogue] else []) in
           thenR (check_buckets s bp 0) (\<lambda>d6.
           Some (Inr (d0 @ d1 @ d2 @ d3 @ d4 @ d5 @ d6, bp)))))))))))
      | PrintBlock bp \<Rightarrow>
          thenR (checker s (CheckHeap True)) (\<lambda>(d0, _).
          Some (thenF (GET_SIZE s (HDRP bp)) (\<lambda>hsize.
                thenF (GET_ALLOC s (HDRP bp)) (\<lambda>halloc.
                thenF (FTRP s bp) (\<lambda>fp.
                thenF (GET_SIZE s fp) (\<lambda>fsize.
                thenF (FTRP s bp) (\<lambda>fp2.
                thenF (GET_ALLOC s fp2) (\<lambda>falloc.
                if hsize = 0 then Inr (d0 @ [EndOfHeap bp], bp)
                else Inr (d0 @ [BlockLine bp hsize (halloc \<noteq> 0) fsize (falloc \<noteq> 0)], bp)))))))))
      | Walk verbose bp \<Rightarrow>
          thenR (Some (GET_SIZE s (HDRP bp))) (\<lambda>sz.
          if sz > 0 then
            thenR (if verbose then checker s (PrintBlock bp) else Some (Inr ([], bp))) (\<lambda>(d1, _).
            thenR (Some (checkblock s bp)) (\<lambda>d2.
            thenR (Some (GET_ALLOC s bp)) (\<lambda>a.
            thenR (Some (GET_SIZE s (heap_listp s))) (\<lambda>hs.
            thenR (Some (NEXT_BLKP s bp)) (\<lambda>nb.
            thenR (checker s (Walk verbose nb)) (\<lambda>(d3, bp').
            Some (Inr (d1 @ d2 @ (if a > hs then [InvalidPointer] else []) @ d3, bp'))))))))
          else Some (Inr ([], bp))))"

declare checker.simps [code]

definition checkheap :: "mstate \<Rightarrow> bool \<Rightarrow> (fault + diag list) option" where
  "checkheap s verbose =
     thenR (checker s (CheckHeap verbose)) (\<lambda>(ds, bp). Some (Inr ds))"

section \<open>Observing a heap state\<close>

text \<open>
  The block chain as the walk of \<^verbatim>\<open>checkheap\<close> visits it: from \<open>bp\<close>, step by the size in
  each header until a header of size 0. Each entry is the block pointer, its size and
  its allocated bit.
\<close>

partial_function (option) block_chain ::
  "mstate \<Rightarrow> addr \<Rightarrow> (fault + (addr \<times> 64 word \<times> bool) list) option" where
  "block_chain s bp =
     thenR (Some (GET_SIZE s (HDRP bp))) (\<lambda>sz.
     if sz > 0 then
       thenR (Some (GET_ALLOC s (HDRP bp))) (\<lambda>a.
       thenR (Some (NEXT_BLKP s bp)) (\<lambda>nb.
       thenR (block_chain s nb) (\<lambda>rest.
       Some (Inr ((bp, sz, a \<noteq> 0) # rest)))))
     else Some (Inr []))"

declare block_chain.simps [code]

fun adjacent_free :: "(addr \<times> 64 word \<times> bool) list \<Rightarrow> bool" where
  "adjacent_free ((b1, z1, a1) # (b2, z2, a2) # rest) \<longleftrightarrow>
     (\<not> a1 \<and> \<not> a2) \<or> adjacent_free ((b2, z2, a2) # rest)"
| "adjacent_free _ \<longleftrightarrow> False"

text \<open>
  The members of a bucket: the nodes reached from \<open>p\<close> by \<^verbatim>\<open>next\<close> pointers before the
  list head \<open>dummy\<close> is reached again.
\<close>

fun bucket_path :: "mstate \<Rightarrow> addr \<Rightarrow> addr \<Rightarrow> addr list \<Rightarrow> bool" where
  "bucket_path s dummy p [] \<longleftrightarrow> p = dummy"
| "bucket_path s dummy p (x # xs) \<longleftrightarrow>
     p = x \<and> x \<noteq> dummy \<and>
     (case GET s (next_field x) of Inl e \<Rightarrow> False | Inr nx \<Rightarrow> bucket_path s dummy nx xs)"

definition bucket_members :: "mstate \<Rightarrow> 32 word \<Rightarrow> addr list \<Rightarrow> bool" where
  "bucket_members s i xs \<longleftrightarrow>
     (case GET s (next_field (list_head s i)) of
        Inl e \<Rightarrow> False
      | Inr first \<Rightarrow> bucket_path s (list_head s i) first xs)"

text \<open>
  The state of the process before \<^verbatim>\<open>mm_init\<close>: the globals of \<^verbatim>\<open>mm.c\<close> are zero, and the
  region provider has reserved 20 MB at address 4096, none of it handed out yet.
\<close>

definition boot_state :: mstate where
  "boot_state =
     \<lparr>mem = (\<lambda>_. 0), mem_start_brk = 4096, mem_brk = 4096,
      mem_max_addr = 4096 + 20971520, heap_listp = 0, free_listp = 0, MAX_SIZE = 0\<rparr>"

text \<open>
  What a call ended with: the state (the boot state when the call did not return
  normally) and the returned value.
\<close>

definition state_of :: "(fault + mstate \<times> 'a) option \<Rightarrow> mstate" where
  "state_of r = (case r of Some (Inr (s, x)) \<Rightarrow> s | _ \<Rightarrow> boot_state)"

definition value_of :: "(fault + mstate \<times> 'a) option \<Rightarrow> 'a option" where
  "value_of r = (case r of Some (Inr (s, x)) \<Rightarrow> Some x | _ \<Rightarrow> None)"

text \<open>Concrete heaps, each reached from the boot state by calls of the interface.\<close>

definition init_state :: mstate where
  "init_state = state_of (Some (mm_init boot_state))"

text \<open>\<^verbatim>\<open>mm_init(); a = mm_malloc(1);\<close> The block \<open>a\<close> is at 4360 and has size 32.\<close>

definition one_block_state :: mstate where
  "one_block_state = state_of (mm_malloc init_state 1)"

text \<open>\<^verbatim>\<open>mm_init(); a = mm_malloc(1); b = mm_malloc(1); mm_free(a);\<close>\<close>

definition freed_first_state :: mstate where
  "freed_first_state =
     state_of (Some (thenF (mm_free (state_of (mm_malloc one_block_state 1)) 4360)
                       (\<lambda>s. Inr (s, ()))))"

text \<open>\<^verbatim>\<open>mm_init(); a = mm_malloc(100);\<close> The block \<open>a\<close> is at 4360 and has size 120.\<close>

definition big_block_state :: mstate where
  "big_block_state = state_of (mm_malloc init_state 100)"

text \<open>
  The same on a region provider that has nothing left after \<^verbatim>\<open>mm_init\<close>: it reserved
  exactly the 4360 bytes that \<^verbatim>\<open>mm_init\<close> asks for.
\<close>

definition full_state :: mstate where
  "full_state =
     state_of (mm_malloc
       (state_of (Some (mm_init (boot_state\<lparr>mem_max_addr := 8456\<rparr>)))) 100)"

text \<open>
  \<^verbatim>\<open>mm_init(); a = mm_malloc(1); b = mm_malloc(1); c = mm_malloc(1); x = mm_malloc(1);
  y = mm_malloc(1); mm_free(b); mm_free(y); mm_free(x); n = mm_realloc(a, 1);\<close>
\<close>

definition resized_state :: mstate where
  "resized_state =
     state_of
      (thenR (mm_malloc one_block_state 1) (\<lambda>(s3, b).
       thenR (mm_malloc s3 1) (\<lambda>(s4, c).
       thenR (mm_malloc s4 1) (\<lambda>(s5, x).
       thenR (mm_malloc s5 1) (\<lambda>(s6, y).
       thenR (Some (mm_free s6 b)) (\<lambda>s7.
       thenR (Some (mm_free s7 y)) (\<lambda>s8.
       thenR (Some (mm_free s8 x)) (\<lambda>s9.
       mm_realloc s9 4360 1))))))))"

text \<open>
  \<^verbatim>\<open>mm_init(); a = mm_malloc(100); f = mm_malloc(130); g = mm_malloc(1); mm_free(f);\<close>
  The allocated block \<open>a\<close> = 4360 has size 120 and is followed by the free block
  \<open>f\<close> = 4480 of size 152.
\<close>

definition gap_state :: mstate where
  "gap_state =
     state_of
      (thenR (mm_malloc big_block_state 130) (\<lambda>(s3, f).
       thenR (mm_malloc s3 1) (\<lambda>(s4, g).
       thenR (Some (mm_free s4 f)) (\<lambda>s5. Some (Inr (s5, f))))))"

section \<open>The search order of \<open>find_fit\<close>, as a specification\<close>

text \<open>
  The class in which \<^verbatim>\<open>find_fit\<close> starts, and the first member of a list of blocks that
  is large enough, \<open>NULL\<close> when there is none.
\<close>

definition start_class :: "mstate \<Rightarrow> 64 word \<Rightarrow> 32 word" where
  "start_class s asize =
     (if find_list_head (ucast asize) + 1 \<noteq> MAX_SIZE s
      then find_list_head (ucast asize) + 1 else find_list_head (ucast asize))"

definition first_fit :: "(addr \<Rightarrow> 64 word) \<Rightarrow> 64 word \<Rightarrow> addr list \<Rightarrow> addr" where
  "first_fit bsize asize xs =
     (case List.find (\<lambda>x. asize \<le> bsize x) xs of None \<Rightarrow> NULL | Some x \<Rightarrow> x)"

text \<open>Every bucket below \<open>k\<close> is an empty list: the head's \<^verbatim>\<open>next\<close> is the head itself.\<close>

definition buckets_empty_below :: "mstate \<Rightarrow> 32 word \<Rightarrow> bool" where
  "buckets_empty_below s k \<longleftrightarrow>
     (\<forall>n \<in> set [0 ..< unat k].
        GET s (next_field (list_head s (of_nat n))) = Inr (list_head s (of_nat n)))"

section \<open>Basic facts about the fault-propagating steps\<close>

lemma thenF_Inr_iff: "thenF m f = Inr y \<longleftrightarrow> (\<exists>x. m = Inr x \<and> f x = Inr y)"
  by (cases m) (simp_all add: thenF_def)

lemma thenR_Inr_iff:
  "thenR m f = Some (Inr y) \<longleftrightarrow> (\<exists>x. m = Some (Inr x) \<and> f x = Some (Inr y))"
  by (simp add: thenR_def split: option.splits sum.splits)

lemma thenR_Some_iff:
  "thenR m f = Some y \<longleftrightarrow>
     (\<exists>e. m = Some (Inl e) \<and> y = Inl e) \<or> (\<exists>x. m = Some (Inr x) \<and> f x = Some y)"
  by (auto simp: thenR_def split: option.splits sum.splits)

lemma GET_Inr_iff: "GET s p = Inr w \<longleftrightarrow> check_access s p = None \<and> w = mem s p"
  by (auto simp: GET_def split: option.splits)

lemma PUT_Inr_iff:
  "PUT s p v = Inr s' \<longleftrightarrow> check_access s p = None \<and> s' = s\<lparr>mem := (mem s)(p := v)\<rparr>"
  by (auto simp: PUT_def split: option.splits)

lemma check_access_None_iff:
  "check_access s p = None \<longleftrightarrow> in_heap s p"
  by (simp add: check_access_def)

lemma not_in_heap_NULL [simp]: "\<not> in_heap s NULL"
  by (simp add: in_heap_def)

lemma not_in_heap_brk: "\<not> in_heap s (mem_brk s)"
  by (simp add: in_heap_def)

lemma run_returns: "value_of r = Some x \<Longrightarrow> r = Some (Inr (state_of r, x))"
  by (auto simp: value_of_def state_of_def split: option.splits sum.splits)

section \<open>The concrete heaps, evaluated\<close>

text \<open>
  Each lemma runs one of the concrete heaps once and records every observation that
  the theorems below use.
\<close>

lemma eval_init:
  "(let s = init_state in
      value_of (mm_malloc s 1) = Some 4360
      \<and> GET_SIZE s (HDRP (heap_listp s)) = Inr 16
      \<and> checkblock s (heap_listp s) = Inr []
      \<and> checker s (Walk False (heap_listp s)) = Some (Inr ([], 8456))
      \<and> GET s (HDRP 8456) = Inr 1
      \<and> 8456 = mem_brk s
      \<and> 12 < MAX_SIZE s
      \<and> buckets_empty_below s 12
      \<and> GET s (next_field (list_head s 12)) = Inr 4360
      \<and> 4360 \<noteq> list_head s 12
      \<and> GET_ALLOC s (heap_listp s) = Inr 1
      \<and> bucket_path s (list_head s 12) 4360 [4360]
      \<and> GET_ALLOC s (HDRP 4360) = Inr 0)"
  by code_simp

lemma eval_one_block:
  "(let s = one_block_state; r = mm_realloc s 4360 1 in
      GET_SIZE s (HDRP 4360) = Inr 32
      \<and> value_of r = Some 4392
      \<and> bucket_members (state_of r) 11 [4424]
      \<and> GET_ALLOC (state_of r) (HDRP 4424) = Inr 1)"
  by code_simp

lemma eval_one_block_check:
  "(let s = state_of (mm_realloc one_block_state 4360 1) in
      bucket_members s 11 [4424]
      \<and> checker s (Walk False (heap_listp s)) = Some (Inr ([HeaderFooterMismatch], 4456))
      \<and> in_heap s 4456
      \<and> checkheap s False = Some (Inr [HeaderFooterMismatch, BadEpilogue]))"
  by code_simp

lemma eval_init_heap:
  "(let s = init_state in
      heap_listp s = 4344 \<and> free_listp s = 4096 \<and> mem_brk s = 8456 \<and> mem_start_brk s = 4096
      \<and> MAX_SIZE s = 15
      \<and> mem s 4336 = 17 \<and> mem s 4344 = 17 \<and> mem s 4352 = 4096 \<and> mem s 8440 = 4096
      \<and> mem s 8448 = 1)"
  by code_simp

lemma eval_big_block:
  "(let s = big_block_state in GET_SIZE s (HDRP 4360) = Inr 120)"
  by code_simp

lemma eval_full:
  "(let s = full_state in
      GET_SIZE s (HDRP 4360) = Inr 120 \<and> value_of (mm_malloc s (2 * 3000)) = Some NULL)"
  by code_simp

lemma eval_freed_first:
  "(let s = freed_first_state in
      bucket_members s (find_list_head (ucast (32 :: 64 word))) [4360]
      \<and> GET_SIZE s (HDRP 4360) = Inr 32
      \<and> find_fit s 32 = Some (Inr 4424)
      \<and> start_class s 32 = 6
      \<and> (\<forall>n \<in> set [unat (start_class s 32) ..< unat (MAX_SIZE s)].
            bucket_members s (of_nat n) (if n = 11 then [4424] else []))
      \<and> (\<forall>x \<in> set (concat (map (\<lambda>n. if n = 11 then [4424] else [])
              [unat (start_class s 32) ..< unat (MAX_SIZE s)])).
            GET_SIZE s (HDRP x) = Inr 4032))"
  by code_simp

lemma eval_gap:
  "(let s = gap_state; r = mm_realloc s 4360 (2 ^ 63 + 20) in
      GET s (HDRP 4360) = Inr (PACK 120 1)
      \<and> value_of r = Some 4480
      \<and> GET s (4360 + 56) = Inr 0
      \<and> GET (state_of r) (4480 + 56) = Inr 4360)"
  by code_simp

lemma eval_resized:
  "(let s = resized_state in
      block_chain s (heap_listp s) =
        Some (Inr [(4344, 16, True), (4360, 64, False), (4424, 32, True),
                   (4456, 32, True), (4488, 32, False), (4520, 3936, False)]))"
  by code_simp

section \<open>Resizing\<close>

text \<open>
  C8 (code defect). \<^verbatim>\<open>mm_realloc(NULL, n)\<close> is documented as "just malloc", but the function
  computes \<^verbatim>\<open>oldsize = GET_SIZE(HDRP(ptr))\<close> before it tests \<^verbatim>\<open>ptr\<close>: with a null \<^verbatim>\<open>ptr\<close> it
  loads the word 8 bytes below address 0, which is outside every heap. In every state
  and for every size the call ends in that fault instead of behaving as \<^verbatim>\<open>mm_malloc\<close>.
\<close>

theorem realloc_null_faults:
  "mm_realloc s NULL sz = Some (Inl (OutOfHeap (HDRP NULL)))"
proof -
  have "uint (- 8 :: 64 word) + 8 = 2 ^ 64" by simp
  moreover have "uint (mem_brk s) < 2 ^ 64" using uint_lt2p [of "mem_brk s"] by simp
  ultimately have "\<not> in_heap s (- 8)" by (simp add: in_heap_def)
  then show ?thesis
    by (simp add: mm_realloc_def thenR_def GET_SIZE_def GET_def thenF_def check_access_def
        HDRP_def NULL_def WSIZE_def Let_def)
qed

theorem realloc_null_faults_witness:
  "mm_realloc init_state NULL 1 = Some (Inl (OutOfHeap (HDRP NULL)))
   \<and> value_of (mm_malloc init_state 1) = Some 4360"
proof -
  have "value_of (mm_malloc init_state 1) = Some 4360"
    using eval_init unfolding Let_def by blast
  then show ?thesis using realloc_null_faults [of init_state 1] by simp
qed

text \<open>
  C4, as stated, fails when the adjusted size equals the block size: the test of the
  source is \<^verbatim>\<open>newsize < oldsize\<close>. After \<^verbatim>\<open>mm_init(); a = mm_malloc(1);\<close> the block \<open>a\<close> = 4360
  has size 32, the adjusted size of a request of 1 byte is 32, and \<^verbatim>\<open>mm_realloc(a, 1)\<close>
  returns the different address 4392.
\<close>

theorem realloc_equal_size_counterexample:
  "value_of (mm_malloc init_state 1) = Some 4360
   \<and> GET_SIZE one_block_state (HDRP 4360) = Inr 32
   \<and> adjust_size 1 \<le> 32
   \<and> value_of (mm_realloc one_block_state 4360 1) = Some 4392"
proof -
  have "adjust_size 1 \<le> 32" by code_simp
  then show ?thesis
    using eval_init eval_one_block unfolding Let_def by blast
qed

text \<open>
  C4 (amended). For a non-null block pointer \<open>ptr\<close> and a request \<open>sz > 0\<close> whose adjusted
  size is strictly less than the size in the block's header, \<^verbatim>\<open>mm_realloc(ptr, sz)\<close>
  returns \<open>ptr\<close> and the state is unchanged: no split, no copy, no heap mutation.
\<close>

theorem realloc_in_place:
  assumes "sz \<noteq> 0" and "ptr \<noteq> NULL"
    and "GET_SIZE s (HDRP ptr) = Inr oldsize"
    and "adjust_size sz < oldsize"
  shows "mm_realloc s ptr sz = Some (Inr (s, ptr))"
  using assms by (simp add: mm_realloc_def thenR_def Let_def)

theorem realloc_in_place_witness:
  "mm_realloc big_block_state 4360 10 = Some (Inr (big_block_state, 4360))"
proof -
  have h: "GET_SIZE big_block_state (HDRP 4360) = Inr 120"
    using eval_big_block unfolding Let_def .
  have a: "adjust_size 10 < 120" by code_simp
  have "(10 :: 64 word) \<noteq> 0" and "(4360 :: addr) \<noteq> NULL"
    by (simp_all add: NULL_def)
  then show ?thesis
    using h a realloc_in_place [of 10 4360 big_block_state 120] by blast
qed

text \<open>
  C5 (code defect). \<^verbatim>\<open>mm_realloc\<close> asks for \<^verbatim>\<open>2 * size\<close> bytes, and that product wraps
  around for sizes from \<open>2 ^ 63\<close>. In \<open>gap_state\<close> the block \<open>a\<close> = 4360 is allocated with size
  120. The request \<open>2 ^ 63 + 20\<close> has an adjusted size above 120, \<^verbatim>\<open>2 * size\<close> is 40, and the
  call succeeds with the block 4480, whose payload is 40 bytes. The 120 bytes copied
  there run over the blocks that follow, and the release of \<open>a\<close> then links \<open>a\<close> behind the
  remainder block at 4536: the word at offset 56 of the old payload was 0, and the word
  at offset 56 of the new address is the pointer 4360.
\<close>

theorem resize_overflow_loses_content:
  "GET gap_state (HDRP 4360) = Inr (PACK 120 1)
   \<and> 120 < adjust_size (2 ^ 63 + 20)
   \<and> value_of (mm_realloc gap_state 4360 (2 ^ 63 + 20)) = Some 4480
   \<and> GET gap_state (4360 + 56) = Inr 0
   \<and> GET (state_of (mm_realloc gap_state 4360 (2 ^ 63 + 20))) (4480 + 56) = Inr 4360"
proof -
  have "120 < adjust_size (2 ^ 63 + 20)" by code_simp
  then show ?thesis
    using eval_gap unfolding Let_def by blast
qed

subsection \<open>A failed allocation changes nothing\<close>

lemma mem_sbrk_fail_same:
  assumes "mem_sbrk s incr = (s1, - 1)"
  shows "s1 = s"
proof (cases "uint (mem_brk s) + uint incr \<le> uint (mem_max_addr s)")
  case False
  with assms show ?thesis by (simp add: mem_sbrk_def)
next
  case True
  with assms have eq: "s1 = s\<lparr>mem_brk := mem_brk s + incr\<rparr>" and brk: "mem_brk s = - 1"
    by (auto simp: mem_sbrk_def)
  have "uint (mem_max_addr s) < 2 ^ 64" using uint_lt2p [of "mem_max_addr s"] by simp
  moreover have "uint (mem_brk s) = 2 ^ 64 - 1"
    using brk by (simp add: unsigned_minus_1_eq_mask mask_eq_exp_minus_1)
  moreover have "0 \<le> uint incr" by simp
  ultimately have "uint incr = 0" using True by linarith
  then have "incr = 0" by (simp add: uint_0_iff)
  with eq show ?thesis by simp
qed

lemma insert_circular_nonnull:
  "insert_circular s block dummy = Inr s' \<Longrightarrow> block \<noteq> NULL"
  by (auto simp: insert_circular_def thenF_Inr_iff PUT_Inr_iff check_access_None_iff
      next_field_def)

lemma coalesce_nonnull: "coalesce s bp = Inr (s', r) \<Longrightarrow> r \<noteq> NULL"
  unfolding coalesce_def Let_def
  by (auto simp: thenF_Inr_iff dest: insert_circular_nonnull)

lemma extend_heap_null_same:
  assumes "extend_heap s words = Inr (s1, NULL)"
  shows "s1 = s"
proof -
  obtain sz where sz: "sz = (if words mod 2 \<noteq> 0 then (words + 1) * WSIZE else words * WSIZE)"
    by simp
  obtain t bp where sb: "mem_sbrk s sz = (t, bp)" by (cases "mem_sbrk s sz")
  show ?thesis
  proof (cases "bp = - 1")
    case True
    with assms sz sb have "s1 = t" by (simp add: extend_heap_def Let_def)
    moreover from True sb have "t = s" by (simp add: mem_sbrk_fail_same)
    ultimately show ?thesis by simp
  next
    case False
    with assms sz sb have "\<exists>s4. coalesce s4 bp = Inr (s1, NULL)"
      by (auto simp: extend_heap_def Let_def thenF_Inr_iff)
    then show ?thesis by (auto dest: coalesce_nonnull)
  qed
qed

lemma malloc_null_same:
  assumes "mm_malloc s sz = Some (Inr (s1, NULL))"
  shows "s1 = s"
  using assms
  by (auto simp: mm_malloc_def Let_def thenR_Inr_iff thenF_Inr_iff
      split: if_splits dest: extend_heap_null_same)

text \<open>
  C6. When the allocation of the replacement block inside \<^verbatim>\<open>mm_realloc\<close> fails, that is
  \<^verbatim>\<open>mm_malloc(2 * size)\<close> returns \<open>NULL\<close>, then \<^verbatim>\<open>mm_realloc\<close> returns \<open>NULL\<close> and the whole state
  is the one before the call: the original block's header, footer, allocated bit and
  payload are untouched, as is everything else.
\<close>

theorem realloc_oom_untouched:
  assumes "sz \<noteq> 0" and "ptr \<noteq> NULL"
    and "GET_SIZE s (HDRP ptr) = Inr oldsize"
    and "\<not> adjust_size sz < oldsize"
    and "mm_malloc s (2 * sz) = Some (Inr (s1, NULL))"
  shows "mm_realloc s ptr sz = Some (Inr (s, NULL))"
proof -
  from assms(5) have "s1 = s" by (rule malloc_null_same)
  with assms show ?thesis by (simp add: mm_realloc_def thenR_def Let_def)
qed

theorem realloc_oom_untouched_witness:
  "mm_realloc full_state 4360 3000 = Some (Inr (full_state, NULL))"
proof -
  have h: "GET_SIZE full_state (HDRP 4360) = Inr 120"
    and v: "value_of (mm_malloc full_state (2 * 3000)) = Some NULL"
    using eval_full unfolding Let_def by blast+
  have a: "\<not> adjust_size 3000 < 120" by code_simp
  from v have m: "mm_malloc full_state (2 * 3000)
      = Some (Inr (state_of (mm_malloc full_state (2 * 3000)), NULL))"
    by (rule run_returns)
  have "(3000 :: 64 word) \<noteq> 0" and "(4360 :: addr) \<noteq> NULL"
    by (simp_all add: NULL_def)
  then show ?thesis
    using h a m realloc_oom_untouched [of 3000 4360 full_state 120] by blast
qed

section \<open>Alignment of returned addresses\<close>

text \<open>
  C7, as stated, fails: on this platform the double word is \<open>DSIZE\<close> = 16 bytes, and the
  first block handed out after \<^verbatim>\<open>mm_init\<close> on a region that starts at the 16-byte aligned
  address 4096 is at 4360, which is 8 modulo 16.
\<close>

theorem double_word_alignment_counterexample:
  "mem_start_brk boot_state AND (DSIZE - 1) = 0
   \<and> value_of (mm_malloc init_state 1) = Some 4360
   \<and> (4360 :: addr) AND (DSIZE - 1) \<noteq> 0"
proof -
  have "mem_start_brk boot_state AND (DSIZE - 1) = 0"
    and "(4360 :: addr) AND (DSIZE - 1) \<noteq> 0"
    by code_simp+
  then show ?thesis
    using eval_init unfolding Let_def by blast
qed

section \<open>Which block \<open>find_fit\<close> returns\<close>

lemma find_append:
  "List.find P (xs @ ys) = (case List.find P xs of None \<Rightarrow> List.find P ys | Some x \<Rightarrow> Some x)"
  by (induction xs) simp_all

lemma scan_list_path:
  assumes "bucket_path s dummy p xs"
    and "\<forall>x \<in> set xs. GET_SIZE s (HDRP x) = Inr (bsize x)"
  shows "scan_list s dummy asize p = Some (Inr (List.find (\<lambda>x. asize \<le> bsize x) xs))"
  using assms
proof (induction xs arbitrary: p)
  case Nil
  then show ?case by (simp add: scan_list.simps)
next
  case (Cons x xs)
  from Cons.prems(1) obtain nx where px: "p = x" and xd: "x \<noteq> dummy"
    and nx: "GET s (next_field x) = Inr nx" and path: "bucket_path s dummy nx xs"
    by (auto split: sum.splits)
  from Cons.prems(2) have hx: "GET_SIZE s (HDRP x) = Inr (bsize x)"
    and rest: "\<forall>y \<in> set xs. GET_SIZE s (HDRP y) = Inr (bsize y)"
    by simp_all
  have IH: "scan_list s dummy asize nx = Some (Inr (List.find (\<lambda>x. asize \<le> bsize x) xs))"
    using Cons.IH [OF path rest] .
  show ?case
    by (subst scan_list.simps) (simp add: px xd hx nx IH)
qed

lemma find_fit_from_paths:
  assumes "\<forall>n. unat idx \<le> n \<and> n < unat (MAX_SIZE s) \<longrightarrow> bucket_members s (of_nat n) (L n)"
    and "\<forall>n x. unat idx \<le> n \<and> n < unat (MAX_SIZE s) \<and> x \<in> set (L n)
          \<longrightarrow> GET_SIZE s (HDRP x) = Inr (bsize x)"
  shows "find_fit_from s asize idx =
     Some (Inr (first_fit bsize asize (concat (map L [unat idx ..< unat (MAX_SIZE s)]))))"
  using assms
proof (induction s asize idx rule: find_fit_from.induct)
  case (1 s asize idx)
  show ?case
  proof (cases "idx < MAX_SIZE s")
    case False
    then have "\<not> unat idx < unat (MAX_SIZE s)" by (simp add: word_less_nat_alt)
    with False show ?thesis
      by (subst find_fit_from.simps) (simp add: first_fit_def)
  next
    case True
    then have lt: "unat idx < unat (MAX_SIZE s)" by (simp add: word_less_nat_alt)
    from True have suc: "unat (idx + 1) = Suc (unat idx)" by unat_arith
    from lt "1.prems"(1) have "bucket_members s (of_nat (unat idx)) (L (unat idx))" by blast
    then have "bucket_members s idx (L (unat idx))" by simp
    then obtain first where first: "GET s (next_field (list_head s idx)) = Inr first"
      and path: "bucket_path s (list_head s idx) first (L (unat idx))"
      by (auto simp: bucket_members_def split: sum.splits)
    from lt "1.prems"(2) have sz: "\<forall>x \<in> set (L (unat idx)). GET_SIZE s (HDRP x) = Inr (bsize x)"
      by blast
    have scan: "scan_list s (list_head s idx) asize first
        = Some (Inr (List.find (\<lambda>x. asize \<le> bsize x) (L (unat idx))))"
      using scan_list_path [OF path sz] .
    have upt: "[unat idx ..< unat (MAX_SIZE s)] = unat idx # [unat (idx + 1) ..< unat (MAX_SIZE s)]"
      using lt by (simp add: suc upt_conv_Cons)
    show ?thesis
    proof (cases "List.find (\<lambda>x. asize \<le> bsize x) (L (unat idx))")
      case (Some hit)
      then show ?thesis
        by (subst find_fit_from.simps) (simp add: True first scan upt first_fit_def find_append)
    next
      case None
      have "find_fit_from s asize (idx + 1) =
          Some (Inr (first_fit bsize asize (concat (map L [unat (idx + 1) ..< unat (MAX_SIZE s)]))))"
      proof (rule "1.IH" [OF True first _ _ ])
        show "scan_list s (list_head s idx) asize first = Some (Inr None)"
          using scan None by simp
      next
        show "Inr None = Inr None" by simp
      next
        show "None = None" by simp
      next
        show "\<forall>n. unat (idx + 1) \<le> n \<and> n < unat (MAX_SIZE s) \<longrightarrow> bucket_members s (word_of_nat n) (L n)"
          using "1.prems"(1) suc by (metis Suc_leD)
      next
        show "\<forall>n x. unat (idx + 1) \<le> n \<and> n < unat (MAX_SIZE s) \<and> x \<in> set (L n) \<longrightarrow>
           GET_SIZE s (HDRP x) = Inr (bsize x)"
          using "1.prems"(2) suc by (metis Suc_leD)
      qed
      with None show ?thesis
        by (subst find_fit_from.simps) (simp add: True first scan upt first_fit_def find_append)
    qed
  qed
qed

text \<open>
  C3, as stated, fails: \<^verbatim>\<open>find_fit\<close> does not scan the class of the request itself. After
  \<^verbatim>\<open>mm_init(); a = mm_malloc(1); b = mm_malloc(1); mm_free(a);\<close> the class of a request of
  32 bytes holds exactly the free block 4360, whose size 32 is large enough, but
  \<^verbatim>\<open>find_fit(32)\<close> returns the block 4424 of a larger class.
\<close>

theorem find_fit_own_class_counterexample:
  "bucket_members freed_first_state (find_list_head (ucast (32 :: 64 word))) [4360]
   \<and> GET_SIZE freed_first_state (HDRP 4360) = Inr 32
   \<and> find_fit freed_first_state 32 = Some (Inr 4424)"
  using eval_freed_first unfolding Let_def by blast

text \<open>
  C3 (amended). \<^verbatim>\<open>find_fit\<close> starts at the class after the class of the request, or at the
  class of the request when that is the last class, and never looks at a smaller class.
  From there it scans the classes in ascending order, each list fully and in list
  order, and returns the first member whose size is at least the request, or \<open>NULL\<close> when
  there is none. Here \<open>L n\<close> is the list of members of bucket \<open>n\<close> and \<open>bsize x\<close> the size in
  the header of member \<open>x\<close>.
\<close>

theorem find_fit_scans_from_start_class:
  assumes "\<forall>n \<in> set [unat (start_class s asize) ..< unat (MAX_SIZE s)].
             bucket_members s (of_nat n) (L n)"
    and "\<forall>x \<in> set (concat (map L [unat (start_class s asize) ..< unat (MAX_SIZE s)])).
             GET_SIZE s (HDRP x) = Inr (bsize x)"
  shows "find_fit s asize =
     Some (Inr (first_fit bsize asize
       (concat (map L [unat (start_class s asize) ..< unat (MAX_SIZE s)]))))"
proof -
  have "find_fit s asize = find_fit_from s asize (start_class s asize)"
    by (simp add: find_fit_def start_class_def Let_def)
  moreover have "find_fit_from s asize (start_class s asize) =
     Some (Inr (first_fit bsize asize
       (concat (map L [unat (start_class s asize) ..< unat (MAX_SIZE s)]))))"
    using assms by (intro find_fit_from_paths) auto
  ultimately show ?thesis by simp
qed

theorem find_fit_scans_from_start_class_witness:
  "start_class freed_first_state 32 = 6
   \<and> find_fit freed_first_state 32 =
       Some (Inr (first_fit (\<lambda>x. 4032) 32
         (concat (map (\<lambda>n. if n = 11 then [4424] else [])
           [unat (start_class freed_first_state 32) ..< unat (MAX_SIZE freed_first_state)]))))"
proof -
  have c: "start_class freed_first_state 32 = 6"
    and h1: "\<forall>n \<in> set [unat (start_class freed_first_state 32) ..< unat (MAX_SIZE freed_first_state)].
      bucket_members freed_first_state (of_nat n) (if n = 11 then [4424] else [])"
    and h2: "\<forall>x \<in> set (concat (map (\<lambda>n. if n = 11 then [4424] else [])
        [unat (start_class freed_first_state 32) ..< unat (MAX_SIZE freed_first_state)])).
      GET_SIZE freed_first_state (HDRP x) = Inr 4032"
    using eval_freed_first unfolding Let_def by blast+
  from find_fit_scans_from_start_class
      [of freed_first_state 32 "\<lambda>n. if n = 11 then [4424] else []" "\<lambda>x. 4032", OF h1 h2]
  show ?thesis using c by blast
qed

section \<open>Well-formed heaps\<close>

declare of_nat_diff [simp del]
declare of_nat_add [simp del]


text \<open>
  Positions in the heap are natural numbers below; \<open>W a\<close> is the address with the number
  \<open>a\<close>, \<open>rd s a\<close> the word stored there, and \<open>ok s a\<close> says that the word at \<open>a\<close> lies inside
  the heap, so that \<^verbatim>\<open>GET\<close> and \<^verbatim>\<open>PUT\<close> at \<open>W a\<close> do not fault.
\<close>

abbreviation W :: "nat \<Rightarrow> addr" where "W \<equiv> of_nat"

definition rd :: "mstate \<Rightarrow> nat \<Rightarrow> 64 word" where
  "rd s a = mem s (of_nat a)"

definition ok :: "mstate \<Rightarrow> nat \<Rightarrow> bool" where
  "ok s a \<longleftrightarrow> 0 < a \<and> unat (mem_start_brk s) \<le> a \<and> a + 8 \<le> unat (mem_brk s)"

lemma unat_W: "a \<le> unat (w :: addr) \<Longrightarrow> unat (W a) = a"
  by (rule le_unat_uoi)

lemma W_eq_iff: "a \<le> unat (w :: addr) \<Longrightarrow> b \<le> unat w \<Longrightarrow> W a = W b \<longleftrightarrow> a = b"
  by (metis unat_W)

lemma W_unat: "W (unat w) = w"
  by simp

lemma in_heap_W: 
  assumes "ok s a" shows "in_heap s (W a)"
proof -
  from assms have le: "a \<le> unat (mem_brk s)" and le8: "a + 8 \<le> unat (mem_brk s)" 
    and pos: "0 < a" and st: "unat (mem_start_brk s) \<le> a" by (simp_all add: ok_def)
  have u: "unat (W a) = a" using le by (rule unat_W)
  have "W a \<noteq> 0" using u pos by (metis unat_0 less_numeral_extra(3))
  moreover have "uint (mem_start_brk s) \<le> uint (W a)"
    using st u uint_nat [of "mem_start_brk s"] uint_nat [of "W a"] by linarith
  moreover have "uint (W a) + 8 \<le> uint (mem_brk s)"
    using le8 u uint_nat [of "mem_brk s"] uint_nat [of "W a"] by linarith
  ultimately show ?thesis by (simp add: in_heap_def NULL_def)
qed

lemma GET_W: "ok s a \<Longrightarrow> GET s (W a) = Inr (rd s a)"
  by (simp add: GET_def check_access_def in_heap_W rd_def)

lemma PUT_W: "ok s a \<Longrightarrow> PUT s (W a) v = Inr (s\<lparr>mem := (mem s)(W a := v)\<rparr>)"
  by (simp add: PUT_def check_access_def in_heap_W)

lemma W_sub: "k \<le> a \<Longrightarrow> W a - W k = W (a - k)"
  by (simp add: of_nat_diff)

lemma W_sub8: "8 \<le> a \<Longrightarrow> W a - 8 = W (a - 8)"
  using W_sub [of 8 a] by simp

lemma W_sub16: "16 \<le> a \<Longrightarrow> W a - 16 = W (a - 16)"
  using W_sub [of 16 a] by simp

lemma W_add8: "W a + 8 = W (a + 8)"
  by (simp add: of_nat_add)


lemma WSIZE_8: "WSIZE = 8" by (simp add: WSIZE_def)
lemma DSIZE_16: "DSIZE = 16" by (simp add: DSIZE_def WSIZE_def)
lemma ALIGN_mask: "ALIGN_SIZE - 1 = mask 3" by (simp add: ALIGN_SIZE_def mask_eq_exp_minus_1)

lemma W_add_sub16: "16 \<le> a + b \<Longrightarrow> W a + W b - 16 = W (a + b - 16)"
  by (simp add: of_nat_diff of_nat_add)

lemma W_add: "W a + W b = W (a + b)"
  by (simp add: of_nat_add)

text \<open>
  A boundary tag, and the block chain of a well-formed heap: \<open>chain s p bs e\<close> says that
  the blocks \<open>bs\<close>, each given by its block pointer, size and allocated bit, lie one
  after the other from the block pointer \<open>p\<close> up to \<open>e\<close>, each with its size a multiple of
  8 and at least 16, and with the same tag in its header (the word before the block
  pointer) and in its footer (the last word of the block).
\<close>

definition tag :: "nat \<Rightarrow> bool \<Rightarrow> 64 word" where
  "tag z a = PACK (of_nat z) (if a then 1 else 0)"

lemma W_8dvd: "8 dvd z \<Longrightarrow> \<exists>x :: 64 word. W z = push_bit 3 x"
proof -
  assume "8 dvd z"
  then obtain k where "z = 8 * k" ..
  then have "W z = push_bit 3 (W k)" by (simp add: push_bit_eq_mult)
  then show ?thesis ..
qed

lemma tag_size: "8 dvd z \<Longrightarrow> tag z a AND NOT (ALIGN_SIZE - 1) = W z"
proof -
  assume "8 dvd z"
  then obtain x :: "64 word" where x: "W z = push_bit 3 x" using W_8dvd by blast
  have "(push_bit 3 x OR (if a then 1 else 0)) AND NOT (mask 3) = push_bit 3 x"
    by (rule bit_word_eqI) (auto simp: bit_simps)
  then show ?thesis by (simp add: tag_def PACK_def ALIGN_mask x)
qed

lemma tag_alloc: "8 dvd z \<Longrightarrow> tag z a AND 1 = (if a then 1 else 0)"
proof -
  assume "8 dvd z"
  then obtain x :: "64 word" where x: "W z = push_bit 3 x" using W_8dvd by blast
  have "(push_bit 3 x OR (if a then 1 else 0)) AND 1 = (if a then 1 else 0)"
    by (rule bit_word_eqI) (auto simp: bit_simps)
  then show ?thesis by (simp add: tag_def PACK_def x)
qed

fun chain :: "mstate \<Rightarrow> nat \<Rightarrow> (nat \<times> nat \<times> bool) list \<Rightarrow> nat \<Rightarrow> bool" where
  "chain s p [] e \<longleftrightarrow> p = e"
| "chain s p ((b, z, a) # bs) e \<longleftrightarrow>
     b = p \<and> 16 \<le> z \<and> 8 dvd z \<and> rd s (p - 8) = tag z a \<and> rd s (p + z - 16) = tag z a
     \<and> chain s (p + z) bs e"

lemma chain_le: "chain s p bs e \<Longrightarrow> p \<le> e"
  by (induction bs arbitrary: p) force+

lemma GET_SIZE_tag:
  "ok s c \<Longrightarrow> rd s c = tag z a \<Longrightarrow> 8 dvd z \<Longrightarrow> GET_SIZE s (W c) = Inr (W z)"
  by (simp add: GET_SIZE_def GET_W thenF_def tag_size)

lemma GET_ALLOC_tag:
  "ok s c \<Longrightarrow> rd s c = tag z a \<Longrightarrow> 8 dvd z \<Longrightarrow> GET_ALLOC s (W c) = Inr (if a then 1 else 0)"
  by (simp add: GET_ALLOC_def GET_W thenF_def tag_alloc)

lemma W_pos: "0 < z \<Longrightarrow> z \<le> unat (w :: addr) \<Longrightarrow> 0 < W z"
  by (metis unat_W unat_gt_0 not_gr_zero word_gt_0)

lemma walk_chain:
  assumes "chain s p bs e" and e: "e = unat (mem_brk s)" and ep: "rd s (e - 8) = tag 0 True"
    and p8: "8 < p" and st: "unat (mem_start_brk s) + 8 \<le> p"
    and hl: "in_heap s (heap_listp s)"
  shows "\<exists>ds. checker s (Walk False (W p)) = Some (Inr (ds, mem_brk s))"
  using assms(1) p8 st
proof (induction bs arbitrary: p)
  case Nil
  then have pe: "p = e" by simp
  have okh: "ok s (e - 8)" using Nil.prems pe e by (simp add: ok_def)
  have sz: "GET_SIZE s (HDRP (W e)) = Inr 0"
    using GET_SIZE_tag [OF okh ep] Nil.prems pe by (simp add: HDRP_def WSIZE_8 W_sub8)
  have We: "W e = mem_brk s" by (simp add: e)
  show ?case
    by (subst checker.simps) (simp add: pe sz [unfolded We] thenR_def We)
next
  case (Cons blk bs)
  obtain b z a where blk: "blk = (b, z, a)" by (cases blk)
  from Cons.prems blk have z16: "16 \<le> z" and z8: "8 dvd z"
    and hd: "rd s (p - 8) = tag z a" and ft: "rd s (p + z - 16) = tag z a"
    and rest: "chain s (p + z) bs e" by simp_all
  from rest have le: "p + z \<le> e" by (rule chain_le)
  have okh: "ok s (p - 8)" using Cons.prems(2,3) le e unfolding ok_def by arith
  have okf: "ok s (p + z - 16)" using Cons.prems(2,3) le e z16 unfolding ok_def by arith
  have okp: "ok s p" using Cons.prems(2,3) le e z16 unfolding ok_def by arith
  have zle: "z \<le> unat (mem_brk s)" using le e by simp
  have zpos: "0 < W z" using z16 zle by (intro W_pos [of z "mem_brk s"]) simp_all
  have sz: "GET_SIZE s (HDRP (W p)) = Inr (W z)"
    using GET_SIZE_tag [OF okh hd z8] Cons.prems(2) by (simp add: HDRP_def WSIZE_8 W_sub8)
  have gh: "GET s (HDRP (W p)) = Inr (tag z a)"
    using GET_W [OF okh] hd Cons.prems(2) by (simp add: HDRP_def WSIZE_8 W_sub8)
  have gf: "GET s (W p + W z - 16) = Inr (tag z a)"
    using GET_W [OF okf] ft z16 by (simp add: W_add_sub16)
  have cb: "\<exists>d. checkblock s (W p) = Inr d"
    by (simp add: checkblock_def Let_def gh FTRP_def sz thenF_def DSIZE_16 gf)
  have ga: "\<exists>w. GET_ALLOC s (W p) = Inr w"
    by (simp add: GET_ALLOC_def GET_W [OF okp] thenF_def)
  have gs: "\<exists>w. GET_SIZE s (heap_listp s) = Inr w"
    using hl by (simp add: GET_SIZE_def GET_def check_access_def thenF_def)
  have nb: "NEXT_BLKP s (W p) = Inr (W (p + z))"
    using sz by (simp add: NEXT_BLKP_def HDRP_def thenF_def W_add)
  from Cons.IH [OF rest] Cons.prems(2,3)
  obtain ds where ih: "checker s (Walk False (W (p + z))) = Some (Inr (ds, mem_brk s))"
    by auto
  from cb obtain d where cb': "checkblock s (W p) = Inr d" ..
  from ga obtain w1 where ga': "GET_ALLOC s (W p) = Inr w1" ..
  from gs obtain w2 where gs': "GET_SIZE s (heap_listp s) = Inr w2" ..
  show ?case
    by (subst checker.simps) (simp add: sz zpos cb' ga' gs' nb ih thenR_def)
qed


section \<open>What the consistency checker does\<close>

lemma checker_verbose_no_return:
  assumes "checker s c = Some y"
  shows "(c = CheckHeap True \<or> (\<exists>bp. c = PrintBlock bp)) \<longrightarrow> (\<exists>e. y = Inl e)"
proof (rule checker.raw_induct
    [where P = "\<lambda>s c y. (c = CheckHeap True \<or> (\<exists>bp. c = PrintBlock bp)) \<longrightarrow> (\<exists>e. y = Inl e)",
      rotated, OF assms], goal_cases)
  case (1 checker' s c y)
  have IH: "\<And>t d z. checker' t d = Some z \<Longrightarrow> d = CheckHeap True \<or> (\<exists>bp. d = PrintBlock bp)
      \<Longrightarrow> \<exists>e. z = Inl e"
    using 1(1) by blast
  show ?case
  proof (intro impI, erule disjE)
    assume c: "c = CheckHeap True"
    from 1(2) show "\<exists>e. y = Inl e"
      apply (simp add: c Let_def thenR_Some_iff split: prod.splits)
      apply (elim disjE exE conjE; (simp; fail)?)
      apply (auto dest!: IH)
      done
  next
    assume "\<exists>bp. c = PrintBlock bp"
    then obtain bp where c: "c = PrintBlock bp" ..
    from 1(2) show "\<exists>e. y = Inl e"
      by (auto simp: c thenR_Some_iff split: prod.splits dest!: IH)
  qed
qed

lemma checkheap_verbose_never_returns:
  "checkheap s True \<noteq> Some (Inr ds)"
proof
  assume "checkheap s True = Some (Inr ds)"
  then obtain r where "checker s (CheckHeap True) = Some (Inr r)"
    by (auto simp: checkheap_def thenR_Some_iff)
  then show False
    using checker_verbose_no_return [of s "CheckHeap True" "Inr r"] by simp
qed

lemma checker_verbose_diverges_aux:
  assumes "checker s c = Some y"
    and "GET_SIZE s (HDRP (heap_listp s)) = Inr psz"
    and "checkblock s (heap_listp s) = Inr d2"
  shows "(case c of CheckHeap v \<Rightarrow> \<not> v | PrintBlock q \<Rightarrow> False
          | Walk v q \<Rightarrow> v \<and> q = heap_listp s \<longrightarrow> y = Inr ([], q))"
proof (rule checker.raw_induct
    [where P = "\<lambda>s c y. GET_SIZE s (HDRP (heap_listp s)) = Inr psz \<longrightarrow>
        checkblock s (heap_listp s) = Inr d2 \<longrightarrow>
        (case c of CheckHeap v \<Rightarrow> \<not> v | PrintBlock q \<Rightarrow> False
          | Walk v q \<Rightarrow> v \<and> q = heap_listp s \<longrightarrow> y = Inr ([], q))",
      rotated, OF assms(1), rule_format, OF _ assms(2,3)], goal_cases)
  case (1 f s c y)
  have IHc: "\<And>z. f s (CheckHeap True) = Some z \<Longrightarrow> False"
    using 1(1) [of s "CheckHeap True"] 1(3,4) by simp
  have IHp: "\<And>q z. f s (PrintBlock q) = Some z \<Longrightarrow> False"
    using 1(1) [of s "PrintBlock _"] 1(3,4) by simp
  have IHw: "\<And>z. f s (Walk True (heap_listp s)) = Some z \<Longrightarrow> z = Inr ([], heap_listp s)"
    using 1(1) [of s "Walk True (heap_listp s)"] 1(3,4) by simp
  have pal: "\<exists>pal. (if psz \<noteq> DSIZE then Inr 0 else GET_ALLOC s (HDRP (heap_listp s))) = Inr pal"
    using 1(3) by (auto simp: GET_SIZE_def GET_ALLOC_def thenF_Inr_iff)
  show ?case
  proof (cases c)
    case (CheckHeap v)
    show ?thesis
    proof (cases v)
      case False
      with CheckHeap show ?thesis by simp
    next
      case True
      from 1(2) pal show ?thesis
        apply (simp add: CheckHeap True Let_def thenR_Some_iff 1(3,4) split: prod.splits)
        apply (auto dest!: IHw IHp)
        done
    qed
  next
    case (PrintBlock q)
    from 1(2) show ?thesis
      by (auto simp: PrintBlock thenR_Some_iff dest!: IHc)
  next
    case (Walk v q)
    show ?thesis
    proof (cases "v \<and> q = heap_listp s")
      case False
      with Walk show ?thesis by auto
    next
      case True
      from 1(2) show ?thesis
        by (auto simp: Walk True thenR_Some_iff 1(3) split: if_splits dest!: IHp)
    qed
  qed
qed

text \<open>
  C9 (code defect). The checker does not terminate in verbose mode: \<^verbatim>\<open>printblock\<close> begins
  with a call of \<^verbatim>\<open>checkheap(true)\<close>, and \<^verbatim>\<open>checkheap(true)\<close> calls \<^verbatim>\<open>printblock\<close> on every path,
  inside the walk for the prologue block or right after the walk. In every state in
  which the header and footer of the prologue block can be read, in particular in every
  state after \<^verbatim>\<open>mm_init\<close>, \<^verbatim>\<open>checkheap(true)\<close> never returns.
\<close>

theorem checkheap_verbose_diverges:
  assumes "GET_SIZE s (HDRP (heap_listp s)) = Inr psz"
    and "checkblock s (heap_listp s) = Inr d2"
  shows "checkheap s True = None"
proof (cases "checker s (CheckHeap True)")
  case None
  then show ?thesis by (simp add: checkheap_def thenR_def)
next
  case (Some y)
  from checker_verbose_diverges_aux [OF Some assms] show ?thesis by simp
qed

theorem checkheap_verbose_diverges_witness:
  "checkheap init_state True = None"
proof -
  have h1: "GET_SIZE init_state (HDRP (heap_listp init_state)) = Inr 16"
    and h2: "checkblock init_state (heap_listp init_state) = Inr []"
    using eval_init unfolding Let_def by blast+
  show ?thesis using checkheap_verbose_diverges [OF h1 h2] .
qed

lemma check_list_reports_by_cursor:
  assumes "GET_ALLOC s bp = Inr a" and "bucket_path s dummy block xs"
  shows "check_list s dummy bp block =
     Some (Inr (if a \<noteq> 0 then map ListedAllocated xs else []))"
  using assms(2)
proof (induction xs arbitrary: block)
  case Nil
  then show ?case by (subst check_list.simps) simp
next
  case (Cons x xs)
  from Cons.prems obtain nx where bx: "block = x" and xd: "x \<noteq> dummy"
    and nx: "GET s (next_field x) = Inr nx" and path: "bucket_path s dummy nx xs"
    by (auto split: sum.splits)
  show ?case
    by (subst check_list.simps) (simp add: bx xd nx assms(1) thenR_def Cons.IH [OF path])
qed

lemma buckets_empty_belowD:
  assumes "buckets_empty_below s k" and "i < k"
  shows "GET s (next_field (list_head s i)) = Inr (list_head s i)"
proof -
  from assms(2) have "unat i < unat k" by (simp add: word_less_nat_alt)
  then have "unat i \<in> set [0 ..< unat k]" by simp
  with assms(1) have "GET s (next_field (list_head s (of_nat (unat i)))) = Inr (list_head s (of_nat (unat i)))"
    unfolding buckets_empty_below_def by (rule bspec)
  then show ?thesis by simp
qed

lemma check_buckets_cursor_fault:
  assumes "GET_ALLOC s bp = Inl e"
    and "k < MAX_SIZE s"
    and "buckets_empty_below s k"
    and "GET s (next_field (list_head s k)) = Inr first"
    and "first \<noteq> list_head s k"
    and "i \<le> k"
  shows "check_buckets s bp i = Some (Inl e)"
  using assms
proof (induction s bp i rule: check_buckets.induct)
  case (1 s bp i)
  from "1.prems"(2,6) have lt: "i < MAX_SIZE s" by simp
  show ?case
  proof (cases "i = k")
    case True
    have "check_list s (list_head s k) bp first = Some (Inl e)"
      using "1.prems"(1,5) by (subst check_list.simps) (simp add: thenR_def)
    then show ?thesis
      using lt "1.prems"(4) True by (subst check_buckets.simps) simp
  next
    case False
    with "1.prems"(6) have ik: "i < k" by simp
    then have emp: "GET s (next_field (list_head s i)) = Inr (list_head s i)"
      using "1.prems"(3) by (rule buckets_empty_belowD [rotated])
    have cl: "check_list s (list_head s i) bp (list_head s i) = Some (Inr [])"
      by (subst check_list.simps) simp
    from ik have "i + 1 \<le> k" by (rule inc_le)
    then have "check_buckets s bp (i + 1) = Some (Inl e)"
      using "1.IH" [OF lt emp cl _ "1.prems"(1,2,3,4,5)] by simp
    then show ?thesis
      using lt emp cl by (subst check_buckets.simps) simp
  qed
qed

text \<open>
  The layout that \<^verbatim>\<open>mm_init\<close> creates and the allocator maintains: the prologue block of
  size 16 at \<open>heap_listp\<close>, then the blocks \<open>bs\<close>, then the epilogue header, of size 0 and
  allocated, in the last word of the heap.
\<close>

definition heap_layout :: "mstate \<Rightarrow> (nat \<times> nat \<times> bool) list \<Rightarrow> bool" where
  "heap_layout s bs \<longleftrightarrow>
     8 < unat (heap_listp s) \<and> unat (mem_start_brk s) + 8 \<le> unat (heap_listp s)
     \<and> chain s (unat (heap_listp s)) ((unat (heap_listp s), 16, True) # bs) (unat (mem_brk s))
     \<and> rd s (unat (mem_brk s) - 8) = tag 0 True"

lemma checkheap_cursor_fault:
  assumes "GET_SIZE s (HDRP (heap_listp s)) = Inr psz"
    and "checkblock s (heap_listp s) = Inr d2"
    and "checker s (Walk False (heap_listp s)) = Some (Inr (d3, bp))"
    and "GET s (HDRP bp) = Inr ew"
    and "bp = mem_brk s"
    and "k < MAX_SIZE s"
    and "buckets_empty_below s k"
    and "GET s (next_field (list_head s k)) = Inr first"
    and "first \<noteq> list_head s k"
  shows "checkheap s False = Some (Inl (OutOfHeap (mem_brk s)))"
proof -
  have pal: "\<exists>pal. (if psz \<noteq> DSIZE then Inr 0 else GET_ALLOC s (HDRP (heap_listp s))) = Inr pal"
    using assms(1) by (auto simp: GET_SIZE_def GET_ALLOC_def thenF_Inr_iff)
  have esz: "GET_SIZE s (HDRP bp) = Inr (ew AND NOT (ALIGN_SIZE - 1))"
    using assms(4) by (simp add: GET_SIZE_def thenF_def)
  have eal: "\<exists>eal. (if ew AND NOT (ALIGN_SIZE - 1) \<noteq> 0 then Inr 0 else GET_ALLOC s (HDRP bp)) = Inr eal"
    using assms(4) by (simp add: GET_ALLOC_def thenF_def)
  have "GET_ALLOC s bp = Inl (OutOfHeap (mem_brk s))"
    using assms(5) by (simp add: GET_ALLOC_def GET_def check_access_def not_in_heap_brk thenF_def)
  then have cb: "check_buckets s bp 0 = Some (Inl (OutOfHeap (mem_brk s)))"
    using assms(6-9) by (rule check_buckets_cursor_fault) simp
  from pal obtain pal where pal': "(if psz \<noteq> DSIZE then Inr 0 else GET_ALLOC s (HDRP (heap_listp s))) = Inr pal" ..
  from eal obtain eal where eal': "(if ew AND NOT (ALIGN_SIZE - 1) \<noteq> 0 then Inr 0 else GET_ALLOC s (HDRP bp)) = Inr eal" ..
  have "checker s (CheckHeap False) = Some (Inl (OutOfHeap (mem_brk s)))"
    by (subst checker.simps) (simp add: thenR_def Let_def assms(1,2,3) pal' esz eal' cb)
  then show ?thesis
    by (simp add: checkheap_def thenR_def)
qed

lemma heap_layout_prologue:
  assumes "heap_layout s bs"
  shows "GET_SIZE s (HDRP (heap_listp s)) = Inr 16"
    and "\<exists>d. checkblock s (heap_listp s) = Inr d"
    and "in_heap s (heap_listp s)"
    and "GET s (HDRP (mem_brk s)) = Inr (tag 0 True)"
proof -
  let ?H = "unat (heap_listp s)" and ?B = "unat (mem_brk s)"
  from assms have h8: "8 < ?H" and st: "unat (mem_start_brk s) + 8 \<le> ?H"
    and hd: "rd s (?H - 8) = tag 16 True" and ft: "rd s (?H + 16 - 16) = tag 16 True"
    and rest: "chain s (?H + 16) bs ?B" and ep: "rd s (?B - 8) = tag 0 True"
    by (simp_all add: heap_layout_def)
  from rest have le: "?H + 16 \<le> ?B" by (rule chain_le)
  have okh: "ok s (?H - 8)" using h8 st le unfolding ok_def by arith
  have okp: "ok s ?H" using h8 st le unfolding ok_def by arith
  have oke: "ok s (?B - 8)" using h8 st le unfolding ok_def by arith
  have WH: "heap_listp s - 8 = W (?H - 8)" using W_sub8 [of ?H] h8 by simp
  have WB: "mem_brk s - 8 = W (?B - 8)" using W_sub8 [of ?B] h8 le by simp
  have gh: "GET s (heap_listp s - 8) = Inr (tag 16 True)"
    using GET_W [OF okh] hd by (simp add: WH)
  have gf: "GET s (heap_listp s) = Inr (tag 16 True)"
    using GET_W [OF okp] ft by simp
  show sz: "GET_SIZE s (HDRP (heap_listp s)) = Inr 16"
    using GET_SIZE_tag [OF okh hd] by (simp add: HDRP_def WSIZE_8 WH)
  show "\<exists>d. checkblock s (heap_listp s) = Inr d"
    using gh by (simp add: checkblock_def Let_def FTRP_def sz [unfolded HDRP_def WSIZE_8]
        thenF_def DSIZE_16 gf HDRP_def WSIZE_8)
  show "in_heap s (heap_listp s)"
    using in_heap_W [OF okp] by simp
  show "GET s (HDRP (mem_brk s)) = Inr (tag 0 True)"
    using GET_W [OF oke] ep by (simp add: HDRP_def WSIZE_8 WB)
qed

lemma heap_layout_walk:
  assumes "heap_layout s bs"
  shows "\<exists>ds. checker s (Walk False (heap_listp s)) = Some (Inr (ds, mem_brk s))"
proof -
  from assms have ch: "chain s (unat (heap_listp s)) ((unat (heap_listp s), 16, True) # bs) (unat (mem_brk s))"
    and ep: "rd s (unat (mem_brk s) - 8) = tag 0 True"
    and h8: "8 < unat (heap_listp s)" and st: "unat (mem_start_brk s) + 8 \<le> unat (heap_listp s)"
    by (simp_all add: heap_layout_def)
  from walk_chain [OF ch refl ep h8 st heap_layout_prologue(3) [OF assms]]
  show ?thesis by simp
qed

text \<open>
  C10, as stated, fails: a non-empty bucket does not always make the checker read beyond
  the heap. The walk stops at the first header of size 0, which need not be the epilogue.
  After \<^verbatim>\<open>mm_init(); a = mm_malloc(1); mm_realloc(a, 1);\<close> the copy of \<^verbatim>\<open>mm_realloc\<close> has
  cleared the header at 4448, so the walk leaves the cursor at 4456, inside the heap that
  ends at 8456. Bucket 11 holds the block 4424, and \<^verbatim>\<open>checkheap(false)\<close> returns normally,
  having read nothing outside the heap.
\<close>

theorem checkheap_walk_stops_inside_heap_counterexample:
  "bucket_members (state_of (mm_realloc one_block_state 4360 1)) 11 [4424]
   \<and> checker (state_of (mm_realloc one_block_state 4360 1))
        (Walk False (heap_listp (state_of (mm_realloc one_block_state 4360 1))))
       = Some (Inr ([HeaderFooterMismatch], 4456))
   \<and> in_heap (state_of (mm_realloc one_block_state 4360 1)) 4456
   \<and> checkheap (state_of (mm_realloc one_block_state 4360 1)) False
       = Some (Inr [HeaderFooterMismatch, BadEpilogue])"
  using eval_one_block_check unfolding Let_def by blast

text \<open>
  C10 (amended). In the free-list validation of \<^verbatim>\<open>checkheap\<close> the test is \<^verbatim>\<open>GET_ALLOC(bp)\<close>,
  where \<open>bp\<close> is the cursor of the heap walk and not the list member. In a well-formed
  heap, where the block chain runs from the prologue to the epilogue header in the last
  word of the heap, the walk leaves the cursor at \<open>mem_brk\<close>, one word past that header. So
  as soon as some bucket is non-empty (\<open>k\<close> is the first such bucket), the non-verbose
  checker accesses the word at \<open>mem_brk\<close>, outside the heap, and that access is the outcome
  of the call. No header of a list member is ever read: whatever readable cursor the
  loop is run with, it reports every member of the list when the word at the cursor is
  odd and none when it is even.
\<close>

theorem checkheap_list_test_reads_past_heap:
  assumes "heap_layout s bs"
    and "k < MAX_SIZE s"
    and "buckets_empty_below s k"
    and "GET s (next_field (list_head s k)) = Inr first"
    and "first \<noteq> list_head s k"
  shows "(\<exists>ds. checker s (Walk False (heap_listp s)) = Some (Inr (ds, mem_brk s)))
     \<and> checkheap s False = Some (Inl (OutOfHeap (mem_brk s)))
     \<and> (\<forall>cur a dummy block xs.
           GET_ALLOC s cur = Inr a \<longrightarrow> bucket_path s dummy block xs \<longrightarrow>
           check_list s dummy cur block =
             Some (Inr (if a \<noteq> 0 then map ListedAllocated xs else [])))"
proof -
  from heap_layout_walk [OF assms(1)] obtain ds
    where walk: "checker s (Walk False (heap_listp s)) = Some (Inr (ds, mem_brk s))" ..
  from heap_layout_prologue(2) [OF assms(1)] obtain d
    where cb: "checkblock s (heap_listp s) = Inr d" ..
  have "checkheap s False = Some (Inl (OutOfHeap (mem_brk s)))"
    using heap_layout_prologue(1) [OF assms(1)] cb walk heap_layout_prologue(4) [OF assms(1)]
      refl assms(2-5)
    by (rule checkheap_cursor_fault)
  with walk show ?thesis
    by (simp add: check_list_reports_by_cursor)
qed

theorem checkheap_list_test_reads_past_heap_witness:
  "heap_layout init_state [(4360, 4096, False)]
   \<and> checkheap init_state False = Some (Inl (OutOfHeap (mem_brk init_state)))
   \<and> mem_brk init_state = 8456
   \<and> GET_ALLOC init_state (HDRP 4360) = Inr 0
   \<and> check_list init_state (list_head init_state 12) (heap_listp init_state) 4360 =
       Some (Inr [ListedAllocated 4360])"
proof -
  have h6: "12 < MAX_SIZE init_state"
    and h7: "buckets_empty_below init_state 12"
    and h8: "GET init_state (next_field (list_head init_state 12)) = Inr 4360"
    and h9: "4360 \<noteq> list_head init_state 12"
    and c1: "GET_ALLOC init_state (heap_listp init_state) = Inr 1"
    and c2: "bucket_path init_state (list_head init_state 12) 4360 [4360]"
    and c3: "GET_ALLOC init_state (HDRP 4360) = Inr 0"
    using eval_init unfolding Let_def by blast+
  have w: "heap_listp init_state = 4344" "mem_brk init_state = 8456"
    "mem_start_brk init_state = 4096" "mem init_state 4336 = 17" "mem init_state 4344 = 17"
    "mem init_state 4352 = 4096" "mem init_state 8440 = 4096" "mem init_state 8448 = 1"
    using eval_init_heap unfolding Let_def by blast+
  have lay: "heap_layout init_state [(4360, 4096, False)]"
    by (simp add: heap_layout_def rd_def tag_def PACK_def w)
  from checkheap_list_test_reads_past_heap [OF lay h6 h7 h8 h9]
  have main: "checkheap init_state False = Some (Inl (OutOfHeap (mem_brk init_state)))"
    and rep: "\<And>cur a dummy block xs.
           GET_ALLOC init_state cur = Inr a \<Longrightarrow> bucket_path init_state dummy block xs \<Longrightarrow>
           check_list init_state dummy cur block =
             Some (Inr (if a \<noteq> 0 then map ListedAllocated xs else []))"
    by blast+
  from rep [OF c1 c2] have "check_list init_state (list_head init_state 12) (heap_listp init_state) 4360 =
       Some (Inr [ListedAllocated 4360])"
    by simp
  with main lay w(2) c3 show ?thesis by simp
qed


section \<open>Heap corruption by \<open>mm_realloc\<close>\<close>

text \<open>
  \<^verbatim>\<open>mm_realloc\<close> copies \<^verbatim>\<open>oldsize\<close> bytes, the size of the whole old block with its header
  and footer, from the old payload to the new one. When the new block is no larger than
  the old one, the copy runs 16 bytes past the new payload: over the footer of the new
  block and over the header of the block that follows it.

  C2 (code defect). After \<^verbatim>\<open>mm_init(); a = mm_malloc(1); mm_realloc(a, 1);\<close> the remainder
  block 4424 is the member of bucket 11, and the copy has replaced its header by the
  header of the block that followed \<open>a\<close>: its allocated bit is set.
\<close>

theorem resize_leaves_allocated_block_in_bucket:
  "value_of (mm_realloc one_block_state 4360 1) = Some 4392
   \<and> bucket_members (state_of (mm_realloc one_block_state 4360 1)) 11 [4424]
   \<and> GET_ALLOC (state_of (mm_realloc one_block_state 4360 1)) (HDRP 4424) = Inr 1"
  using eval_one_block unfolding Let_def by blast

text \<open>
  C1 (code defect). After \<^verbatim>\<open>mm_init()\<close>, five calls \<^verbatim>\<open>mm_malloc(1)\<close> returning \<open>a\<close>, \<open>b\<close>, \<open>c\<close>, \<open>x\<close>,
  \<open>y\<close>, then \<^verbatim>\<open>mm_free(b); mm_free(y); mm_free(x); mm_realloc(a, 1);\<close> the scan of the block
  chain visits the free block 4488 of size 32 and next to it the free block 4520: the
  copy has replaced the header of the remainder block 4488 by the header of the free
  block \<open>b\<close>, and the word at 4520 is the stale header of a block merged earlier.
\<close>

theorem resize_leaves_adjacent_free_blocks:
  "block_chain resized_state (heap_listp resized_state) =
     Some (Inr [(4344, 16, True), (4360, 64, False), (4424, 32, True),
                (4456, 32, True), (4488, 32, False), (4520, 3936, False)])
   \<and> adjacent_free [(4344, 16, True), (4360, 64, False), (4424, 32, True),
                (4456, 32, True), (4488, 32, False), (4520, 3936, False)]"
proof -
  have "adjacent_free [(4344, 16, True), (4360, 64, False), (4424, 32, True),
                (4456, 32, True), (4488, 32, False), (4520 :: addr, 3936 :: 64 word, False)]"
    by simp
  then show ?thesis
    using eval_resized unfolding Let_def by blast
qed

end
